theory Spec2Isabelle
  imports Complex_Main "HOL-Library.Signed_Division"
begin

section \<open>Software PWM LED control (examples/03-pwm-control/pwm-control.c)\<close>

text \<open>
  The C program keeps its numbers in \<open>int\<close> and \<open>long\<close>.  They are modelled as
  unbounded \<open>int\<close>; C's division truncates towards zero, which is \<open>sdiv\<close>.
  Lemma \<open>on_time_no_overflow\<close> below shows that for the duty cycles the program can
  hold the products stay far inside 32 bits, so no wrap-around is lost.  The only
  other arithmetic is \<open>brightness + direction * 2\<close> and \<open>++counter\<close> in the
  animations, on values that stay between -2 and 102 and between 0 and 5 in every
  run from the initial statics (lemmas \<open>breathing_closed\<close> and \<open>strobe_closed\<close>).
  Only the sine-wave animation computes in floating point; that computation has a
  model of its own, on real numbers with explicit rounding.
\<close>

subsection \<open>Configuration macros\<close>

definition PWM_FREQUENCY :: int where
  "PWM_FREQUENCY = 1000"

definition PWM_PERIOD_NS :: int where
  "PWM_PERIOD_NS = 1000000000 sdiv PWM_FREQUENCY"

definition LED_PIN :: int where
  "LED_PIN = 17"

definition BUTTON_PIN :: int where
  "BUTTON_PIN = 27"

subsection \<open>Calls the program issues\<close>

text \<open>
  Everything the program does to the outside is recorded as an event, in order:
  the GPIO calls, the sleeps, the diagnostics and the thread operations.
\<close>

datatype event =
    Set_value int           \<comment> \<open>\<open>gpiod_line_set_value(pwm->line, v)\<close> was called\<close>
  | Nano_sleep int          \<comment> \<open>\<open>nano_sleep(ns)\<close> was called\<close>
  | Perror string
  | Fprintf_stderr string
  | Printf string
  | Thread_started          \<comment> \<open>\<open>pthread_create\<close> succeeded: \<open>pwm_thread\<close> runs\<close>
  | Active_cleared          \<comment> \<open>\<open>pwm->active = false\<close> was executed\<close>
  | Thread_joined           \<comment> \<open>\<open>pthread_join\<close> returned\<close>
  | Mutex_destroy
  | Control_loop            \<comment> \<open>\<open>main\<close> reached its \<open>while (running)\<close> loop\<close>
  | Line_release int        \<comment> \<open>\<open>gpiod_line_release\<close> of the line at this offset\<close>
  | Chip_close

fun is_diagnostic :: "event \<Rightarrow> bool" where
  "is_diagnostic (Perror m) = True"
| "is_diagnostic (Fprintf_stderr m) = True"
| "is_diagnostic (Printf m) = True"
| "is_diagnostic e = False"

fun is_write :: "event \<Rightarrow> bool" where
  "is_write (Set_value v) = True"
| "is_write e = False"

subsection \<open>The GPIO line as the generation thread sees it\<close>

text \<open>
  \<open>level\<close> is the level the line drives; \<open>faults\<close> says for each coming
  \<open>gpiod_line_set_value\<close> call whether it fails (returns -1 and leaves the level);
  \<open>calls\<close> is the list of calls issued so far, the latest last.
\<close>

record world =
  level :: int
  faults :: "bool list"
  calls :: "event list"

definition gpiod_line_set_value :: "int \<Rightarrow> world \<Rightarrow> int \<times> world" where
  "gpiod_line_set_value v w =
     (case faults w of
        [] \<Rightarrow> (0, w\<lparr>level := v, calls := calls w @ [Set_value v]\<rparr>)
      | f # fs \<Rightarrow>
          if f then (- 1, w\<lparr>faults := fs, calls := calls w @ [Set_value v]\<rparr>)
          else (0, w\<lparr>level := v, faults := fs, calls := calls w @ [Set_value v]\<rparr>))"

definition nano_sleep :: "int \<Rightarrow> world \<Rightarrow> world" where
  "nano_sleep nanoseconds w = w\<lparr>calls := calls w @ [Nano_sleep nanoseconds]\<rparr>"

subsection \<open>The PWM control structure\<close>

text \<open>
  \<open>line\<close> is the offset of the owned GPIO line; the thread and mutex handles carry
  no data.  \<open>stores\<close> is not a field of the C struct: it lists the values that
  \<open>set_duty_cycle\<close> has stored into \<open>duty_cycle\<close> so far, the latest last, so that
  theorems can speak about the sequence of published duty cycles.
\<close>

record pwm_control_t =
  line :: int
  duty_cycle :: int
  active :: bool
  stores :: "int list"

definition set_duty_cycle :: "pwm_control_t \<Rightarrow> int \<Rightarrow> pwm_control_t" where
  "set_duty_cycle pwm duty_cycle0 =
     (let d1 = (if duty_cycle0 < 0 then 0 else duty_cycle0);
          d2 = (if d1 > 100 then 100 else d1)
      in pwm\<lparr>duty_cycle := d2, stores := stores pwm @ [d2]\<rparr>)"

subsection \<open>One cycle of the generation loop\<close>

definition on_time_ns :: "int \<Rightarrow> int" where
  "on_time_ns duty = (PWM_PERIOD_NS * duty) sdiv 100"

definition off_time_ns :: "int \<Rightarrow> int" where
  "off_time_ns duty = PWM_PERIOD_NS - on_time_ns duty"

text \<open>
  The body of \<open>while (pwm->active)\<close> after the duty cycle has been read under the
  mutex.  The value \<open>gpiod_line_set_value\<close> returns is dropped, as in the source.
\<close>

definition pwm_cycle :: "int \<Rightarrow> world \<Rightarrow> world" where
  "pwm_cycle duty w =
     (let w1 = (if duty > 0
                then nano_sleep (on_time_ns duty) (snd (gpiod_line_set_value 1 w))
                else w);
          w2 = (if duty < 100
                then nano_sleep (off_time_ns duty) (snd (gpiod_line_set_value 0 w1))
                else w1)
      in w2)"

text \<open>
  The whole thread function.  What the thread reads from the shared structure at the
  top of each iteration is an input: the list holds, per iteration, the value of
  \<open>pwm->active\<close> and of \<open>pwm->duty_cycle\<close> it sees.  The thread returns when it reads
  \<open>active\<close> as false; a list that ends before that is a thread still running (\<open>None\<close>).
\<close>

fun pwm_thread :: "(bool \<times> int) list \<Rightarrow> world \<Rightarrow> world option" where
  "pwm_thread [] w = None"
| "pwm_thread ((act, duty) # obs) w =
     (if act then pwm_thread obs (pwm_cycle duty w)
      else Some (snd (gpiod_line_set_value 0 w)))"

subsection \<open>Creating and destroying the channel\<close>

text \<open>
  What the operating system answers at startup is an input: each field says whether
  the call succeeds when the program gets as far as making it.
\<close>

record startup_env =
  chip_open_ok :: bool
  led_line_ok :: bool
  button_line_ok :: bool
  request_output_ok :: bool
  request_input_ok :: bool
  mutex_init_ok :: bool
  thread_create_ok :: bool

text \<open>Returns the C return value, the initialised structure and the calls made.\<close>

definition pwm_init :: "int \<Rightarrow> startup_env \<Rightarrow> int \<times> pwm_control_t \<times> event list" where
  "pwm_init gl env =
     (let pwm = \<lparr>line = gl, duty_cycle = 0, active = True, stores = []\<rparr>
      in if \<not> mutex_init_ok env then (- 1, pwm, [Perror ''Mutex init failed''])
         else if \<not> thread_create_ok env
         then (- 1, pwm, [Perror ''Thread creation failed'', Mutex_destroy])
         else (0, pwm, [Thread_started]))"

definition pwm_cleanup :: "pwm_control_t \<Rightarrow> pwm_control_t \<times> event list" where
  "pwm_cleanup pwm = (pwm\<lparr>active := False\<rparr>, [Thread_joined, Mutex_destroy])"

subsection \<open>Animation functions\<close>

text \<open>The \<open>static\<close> locals of each animation are passed in and returned.\<close>

record breathing_statics =
  brightness :: int
  direction :: int

definition breathing_init :: breathing_statics where
  "breathing_init = \<lparr>brightness = 0, direction = 1\<rparr>"

definition breathing_animation ::
  "pwm_control_t \<times> breathing_statics \<Rightarrow> pwm_control_t \<times> breathing_statics" where
  "breathing_animation ps =
     (let pwm = fst ps; st = snd ps;
          b = brightness st + direction st * 2;
          st' = (if b \<ge> 100 then \<lparr>brightness = 100, direction = - 1\<rparr>
                 else if b \<le> 0 then \<lparr>brightness = 0, direction = 1\<rparr>
                 else st\<lparr>brightness := b\<rparr>)
      in (set_duty_cycle pwm (brightness st'), st'))"

record strobe_statics =
  state :: int
  counter :: int

definition strobe_init :: strobe_statics where
  "strobe_init = \<lparr>state = 0, counter = 0\<rparr>"

definition strobe_animation ::
  "pwm_control_t \<times> strobe_statics \<Rightarrow> pwm_control_t \<times> strobe_statics" where
  "strobe_animation ps =
     (let pwm = fst ps; st = snd ps; c = counter st + 1
      in if c \<ge> 5
         then (let s' = (if state st = 0 then 1 else 0)
               in (set_duty_cycle pwm (if s' \<noteq> 0 then 100 else 0),
                   \<lparr>state = s', counter = 0\<rparr>))
         else (pwm, st\<lparr>counter := c\<rparr>))"

text \<open>
  \<open>sine_wave_animation\<close> computes its brightness in floating point,
  \<open>(int)(50 * (1 + sin(phase)))\<close>; the integer it obtains is an input here.
\<close>

definition sine_wave_animation :: "int \<Rightarrow> pwm_control_t \<Rightarrow> pwm_control_t" where
  "sine_wave_animation sine_brightness pwm = set_duty_cycle pwm sine_brightness"

datatype animation_mode_t = MODE_MANUAL | MODE_BREATHING | MODE_STROBE | MODE_SINE_WAVE

definition manual_brightness :: int where
  "manual_brightness = 50"

record driver =
  drv_pwm :: pwm_control_t
  drv_breathing :: breathing_statics
  drv_strobe :: strobe_statics

text \<open>The \<open>switch (current_mode)\<close> of the main loop.\<close>

fun run_animation :: "animation_mode_t \<Rightarrow> int \<Rightarrow> driver \<Rightarrow> driver" where
  "run_animation MODE_MANUAL sb d = d\<lparr>drv_pwm := set_duty_cycle (drv_pwm d) manual_brightness\<rparr>"
| "run_animation MODE_BREATHING sb d =
     (let r = breathing_animation (drv_pwm d, drv_breathing d)
      in d\<lparr>drv_pwm := fst r, drv_breathing := snd r\<rparr>)"
| "run_animation MODE_SINE_WAVE sb d = d\<lparr>drv_pwm := sine_wave_animation sb (drv_pwm d)\<rparr>"
| "run_animation MODE_STROBE sb d =
     (let r = strobe_animation (drv_pwm d, drv_strobe d)
      in d\<lparr>drv_pwm := fst r, drv_strobe := snd r\<rparr>)"

text \<open>
  Any run of the main loop: one entry per animation tick, with the mode selected at
  that tick and the integer the sine computation would give.
\<close>

fun drive :: "(animation_mode_t \<times> int) list \<Rightarrow> driver \<Rightarrow> driver" where
  "drive [] d = d"
| "drive ((m, sb) # ticks) d = drive ticks (run_animation m sb d)"

definition driver_init :: "startup_env \<Rightarrow> driver" where
  "driver_init env =
     \<lparr>drv_pwm = fst (snd (pwm_init LED_PIN env)),
      drv_breathing = breathing_init, drv_strobe = strobe_init\<rparr>"

definition duty_ok :: "pwm_control_t \<Rightarrow> bool" where
  "duty_ok pwm = (0 \<le> duty_cycle pwm \<and> duty_cycle pwm \<le> 100)"

subsection \<open>The main function: startup, cleanup labels and exit status\<close>

definition cleanup_chip :: "event list" where
  "cleanup_chip = [Chip_close, Printf ''PWM control terminated.'']"

definition release_led :: "event list" where
  "release_led = Line_release LED_PIN # cleanup_chip"

definition release_button :: "event list" where
  "release_button = Line_release BUTTON_PIN # release_led"

definition banner :: "event list" where
  "banner = [Printf ''=== Raspberry Pi 5 PWM LED Control ==='',
             Printf ''Demonstrates software PWM for LED brightness'']"

text \<open>
  Returns the calls made and the exit status.  The run of the \<open>while (running)\<close>
  loop appears as the single event \<open>Control_loop\<close>; what it does to the duty cycle is
  \<open>drive\<close> above.
\<close>

definition main :: "startup_env \<Rightarrow> event list \<times> int" where
  "main env =
     (if \<not> chip_open_ok env then (banner @ [Perror ''Failed to open GPIO chip''], 1)
      else if \<not> led_line_ok env
      then (banner @ [Perror ''Failed to get LED line''] @ cleanup_chip, 0)
      else if \<not> button_line_ok env
      then (banner @ [Perror ''Failed to get button line''] @ cleanup_chip, 0)
      else if \<not> request_output_ok env
      then (banner @ [Perror ''Failed to request LED output''] @ cleanup_chip, 0)
      else if \<not> request_input_ok env
      then (banner @ [Perror ''Failed to request button input''] @ release_led, 0)
      else (case pwm_init LED_PIN env of (ret, pwm, evs) \<Rightarrow>
              if ret < 0
              then (banner @ evs @ [Fprintf_stderr ''Failed to initialize PWM'']
                      @ release_button, 0)
              else (banner @ evs
                      @ [Printf ''PWM Configuration:'', Printf ''Controls:'',
                         Control_loop, Printf ''Cleaning up...'']
                      @ snd (pwm_cleanup pwm) @ release_button, 0)))"

subsection \<open>The generation thread and the shutdown running together\<close>

text \<open>
  For the shutdown the two threads are modelled together, one source statement per
  step.  The program counter of the generation thread names the statement of
  \<open>pwm_thread\<close> it executes next and carries the local \<open>duty\<close> once it is read:
  the loop test (line 99), the locked read of the duty cycle (101-103), the high write
  (109-111) and its sleep (112), the low write (115-117) and its sleep (118), the last
  write after the loop (123), and the return.  A step at a sleep is the whole call
  of \<open>nano_sleep\<close>: its event is appended when the sleep is over.  Both threads append
  to the one list of calls, so the list orders the calls of the two threads in time.
\<close>

datatype thread_pc =
    T_while
  | T_read_duty
  | T_high int
  | T_high_sleep int
  | T_low int
  | T_low_sleep int
  | T_final
  | T_done

text \<open>
  The main thread is in its control loop, where it may call \<open>set_duty_cycle\<close>; then it
  runs \<open>pwm_cleanup\<close>: clears \<open>active\<close> (line 176), waits in \<open>pthread_join\<close> (177),
  destroys the mutex (180) and returns; then it releases the button line (354) and the
  LED line (356) and closes the chip (358).
\<close>

datatype main_pc =
    M_loop
  | M_join
  | M_destroy
  | M_release_button
  | M_release_led
  | M_close_chip
  | M_exit

record system =
  sys_pwm :: pwm_control_t
  sys_world :: world
  tpc :: thread_pc
  mpc :: main_pc

definition emit :: "event \<Rightarrow> world \<Rightarrow> world" where
  "emit e w = w\<lparr>calls := calls w @ [e]\<rparr>"

definition thread_step :: "system \<Rightarrow> system" where
  "thread_step s =
     (case tpc s of
        T_while \<Rightarrow> if active (sys_pwm s) then s\<lparr>tpc := T_read_duty\<rparr> else s\<lparr>tpc := T_final\<rparr>
      | T_read_duty \<Rightarrow> s\<lparr>tpc := T_high (duty_cycle (sys_pwm s))\<rparr>
      | T_high duty \<Rightarrow>
          if duty > 0
          then s\<lparr>sys_world := snd (gpiod_line_set_value 1 (sys_world s)),
                 tpc := T_high_sleep duty\<rparr>
          else s\<lparr>tpc := T_low duty\<rparr>
      | T_high_sleep duty \<Rightarrow>
          s\<lparr>sys_world := nano_sleep (on_time_ns duty) (sys_world s), tpc := T_low duty\<rparr>
      | T_low duty \<Rightarrow>
          if duty < 100
          then s\<lparr>sys_world := snd (gpiod_line_set_value 0 (sys_world s)),
                 tpc := T_low_sleep duty\<rparr>
          else s\<lparr>tpc := T_while\<rparr>
      | T_low_sleep duty \<Rightarrow>
          s\<lparr>sys_world := nano_sleep (off_time_ns duty) (sys_world s), tpc := T_while\<rparr>
      | T_final \<Rightarrow>
          s\<lparr>sys_world := snd (gpiod_line_set_value 0 (sys_world s)), tpc := T_done\<rparr>
      | T_done \<Rightarrow> s)"

text \<open>
  One step of the shutdown.  \<open>pthread_join\<close> returns only once the thread has
  returned; until then the main thread stays where it is.  The assignment
  \<open>pwm->active = false\<close> leaves the marker \<open>Active_cleared\<close> in the list of calls.
\<close>

definition main_step :: "system \<Rightarrow> system" where
  "main_step s =
     (case mpc s of
        M_loop \<Rightarrow>
          s\<lparr>sys_pwm := (sys_pwm s)\<lparr>active := False\<rparr>,
            sys_world := emit Active_cleared (sys_world s), mpc := M_join\<rparr>
      | M_join \<Rightarrow>
          if tpc s = T_done
          then s\<lparr>sys_world := emit Thread_joined (sys_world s), mpc := M_destroy\<rparr>
          else s
      | M_destroy \<Rightarrow>
          s\<lparr>sys_world := emit Mutex_destroy (sys_world s), mpc := M_release_button\<rparr>
      | M_release_button \<Rightarrow>
          s\<lparr>sys_world := emit (Line_release BUTTON_PIN) (sys_world s), mpc := M_release_led\<rparr>
      | M_release_led \<Rightarrow>
          s\<lparr>sys_world := emit (Line_release LED_PIN) (sys_world s), mpc := M_close_chip\<rparr>
      | M_close_chip \<Rightarrow> s\<lparr>sys_world := emit Chip_close (sys_world s), mpc := M_exit\<rparr>
      | M_exit \<Rightarrow> s)"

text \<open>A call of \<open>set_duty_cycle\<close> from the control loop.\<close>

definition main_set :: "int \<Rightarrow> system \<Rightarrow> system" where
  "main_set v s =
     (if mpc s = M_loop then s\<lparr>sys_pwm := set_duty_cycle (sys_pwm s) v\<rparr> else s)"

text \<open>
  A schedule says which thread moves next; every interleaving of the two threads is
  the run of some schedule.
\<close>

datatype action = Thread_step | Main_set int | Main_step

fun step :: "action \<Rightarrow> system \<Rightarrow> system" where
  "step Thread_step s = thread_step s"
| "step (Main_set v) s = main_set v s"
| "step Main_step s = main_step s"

fun run :: "action list \<Rightarrow> system \<Rightarrow> system" where
  "run [] s = s"
| "run (a # sch) s = run sch (step a s)"

text \<open>
  The system right after a successful \<open>pwm_init\<close>: the line was requested with
  initial value 0, the thread is at its loop test, \<open>main\<close> enters its control loop.
\<close>

definition system_init :: "startup_env \<Rightarrow> bool list \<Rightarrow> system" where
  "system_init env fs =
     \<lparr>sys_pwm = fst (snd (pwm_init LED_PIN env)),
      sys_world = \<lparr>level = 0, faults = fs, calls = []\<rparr>,
      tpc = T_while, mpc = M_loop\<rparr>"

text \<open>
  The events after the first occurrence of a marker (none when it has not occurred),
  and the time a list of events spends in \<open>nano_sleep\<close>.
\<close>

fun since :: "event \<Rightarrow> event list \<Rightarrow> event list" where
  "since m [] = []"
| "since m (e # es) = (if e = m then es else since m es)"

fun total_sleep :: "event list \<Rightarrow> int" where
  "total_sleep [] = 0"
| "total_sleep (Nano_sleep n # es) = n + total_sleep es"
| "total_sleep (e # es) = total_sleep es"

subsection \<open>Vocabulary of the properties\<close>

text \<open>A sleep call is in order when it asks for a positive time.\<close>

fun sleep_positive :: "event \<Rightarrow> bool" where
  "sleep_positive (Nano_sleep n) = (0 < n)"
| "sleep_positive e = True"

text \<open>
  The acquisitions of \<open>main\<close> in program order, and for each the diagnostic the
  source prints right after its failure test.
\<close>

datatype acquisition =
  Chip_open | Get_led_line | Get_button_line | Request_output | Request_input
  | Mutex_init | Thread_create

fun diagnostic :: "acquisition \<Rightarrow> event" where
  "diagnostic Chip_open = Perror ''Failed to open GPIO chip''"
| "diagnostic Get_led_line = Perror ''Failed to get LED line''"
| "diagnostic Get_button_line = Perror ''Failed to get button line''"
| "diagnostic Request_output = Perror ''Failed to request LED output''"
| "diagnostic Request_input = Perror ''Failed to request button input''"
| "diagnostic Mutex_init = Perror ''Mutex init failed''"
| "diagnostic Thread_create = Perror ''Thread creation failed''"

text \<open>The first acquisition that fails, if any does.\<close>

definition first_failure :: "startup_env \<Rightarrow> acquisition option" where
  "first_failure env =
     (if \<not> chip_open_ok env then Some Chip_open
      else if \<not> led_line_ok env then Some Get_led_line
      else if \<not> button_line_ok env then Some Get_button_line
      else if \<not> request_output_ok env then Some Request_output
      else if \<not> request_input_ok env then Some Request_input
      else if \<not> mutex_init_ok env then Some Mutex_init
      else if \<not> thread_create_ok env then Some Thread_create
      else None)"

definition all_ok :: "startup_env \<Rightarrow> bool" where
  "all_ok env = (chip_open_ok env \<and> led_line_ok env \<and> button_line_ok env
     \<and> request_output_ok env \<and> request_input_ok env \<and> mutex_init_ok env
     \<and> thread_create_ok env)"

subsection \<open>Closed forms of the animation sequences\<close>

text \<open>
  The state after \<open>n\<close> successive calls of an animation, from the initial values of
  its statics, and the closed forms the theorems compare it with: a triangle wave of
  period 100 calls for the breathing animation, a square wave for the strobe.
\<close>

definition triangle :: "nat \<Rightarrow> int" where
  "triangle n = (let k = n mod 100 in if k \<le> 50 then 2 * int k else 200 - 2 * int k)"

definition breathing_after :: "nat \<Rightarrow> pwm_control_t \<Rightarrow> pwm_control_t \<times> breathing_statics" where
  "breathing_after n pwm = (breathing_animation ^^ n) (pwm, breathing_init)"

definition leg :: "nat \<Rightarrow> int" where
  "leg n = (if n mod 100 < 50 then 1 else - 1)"

definition strobe_level :: "nat \<Rightarrow> int" where
  "strobe_level k = (if odd k then 100 else 0)"

definition strobe_flag :: "nat \<Rightarrow> int" where
  "strobe_flag k = (if odd k then 1 else 0)"

definition strobe_after :: "nat \<Rightarrow> pwm_control_t \<Rightarrow> pwm_control_t \<times> strobe_statics" where
  "strobe_after n pwm = (strobe_animation ^^ n) (pwm, strobe_init)"

subsection \<open>Invariants of the shutdown\<close>

text \<open>
  The local \<open>duty\<close> of the thread is in range whenever it is set, and \<open>remaining\<close>
  bounds the time the thread may still sleep before it is back at its loop test.
\<close>

fun pc_duty_ok :: "thread_pc \<Rightarrow> bool" where
  "pc_duty_ok (T_high d) = (0 \<le> d \<and> d \<le> 100)"
| "pc_duty_ok (T_high_sleep d) = (0 \<le> d \<and> d \<le> 100)"
| "pc_duty_ok (T_low d) = (0 \<le> d \<and> d \<le> 100)"
| "pc_duty_ok (T_low_sleep d) = (0 \<le> d \<and> d \<le> 100)"
| "pc_duty_ok pc = True"

fun remaining :: "thread_pc \<Rightarrow> int" where
  "remaining T_read_duty = PWM_PERIOD_NS"
| "remaining (T_high d) = PWM_PERIOD_NS"
| "remaining (T_high_sleep d) = PWM_PERIOD_NS"
| "remaining (T_low d) = off_time_ns d"
| "remaining (T_low_sleep d) = off_time_ns d"
| "remaining pc = 0"

text \<open>The number of steps the thread needs at most to return once \<open>active\<close> is false.\<close>

fun steps_left :: "thread_pc \<Rightarrow> nat" where
  "steps_left T_read_duty = 7"
| "steps_left (T_high d) = 6"
| "steps_left (T_high_sleep d) = 5"
| "steps_left (T_low d) = 4"
| "steps_left (T_low_sleep d) = 3"
| "steps_left T_while = 2"
| "steps_left T_final = 1"
| "steps_left T_done = 0"

text \<open>\<open>pthread_join\<close> has returned.\<close>

definition joined :: "main_pc \<Rightarrow> bool" where
  "joined pc = (pc \<noteq> M_loop \<and> pc \<noteq> M_join)"

definition inv_duty :: "system \<Rightarrow> bool" where
  "inv_duty s = (duty_ok (sys_pwm s) \<and> pc_duty_ok (tpc s))"

definition inv_ctl :: "system \<Rightarrow> bool" where
  "inv_ctl s =
     ((mpc s = M_loop) = active (sys_pwm s)
      \<and> (mpc s = M_loop) = (Active_cleared \<notin> set (calls (sys_world s)))
      \<and> joined (mpc s) = (Thread_joined \<in> set (calls (sys_world s)))
      \<and> (joined (mpc s) \<longrightarrow> tpc s = T_done))"

definition inv_sleep :: "system \<Rightarrow> bool" where
  "inv_sleep s =
     (mpc s \<noteq> M_loop \<longrightarrow>
        total_sleep (since Active_cleared (calls (sys_world s))) + remaining (tpc s)
          \<le> PWM_PERIOD_NS)"

definition inv_last :: "system \<Rightarrow> bool" where
  "inv_last s =
     (tpc s = T_done \<longrightarrow>
        filter is_write (calls (sys_world s)) \<noteq> []
        \<and> last (filter is_write (calls (sys_world s))) = Set_value 0)"

definition inv_quiet :: "system \<Rightarrow> bool" where
  "inv_quiet s = (\<not> list_ex is_write (since Thread_joined (calls (sys_world s))))"

definition inv_all :: "system \<Rightarrow> bool" where
  "inv_all s = (inv_duty s \<and> inv_ctl s \<and> inv_sleep s \<and> inv_last s \<and> inv_quiet s)"

text \<open>A startup where every call succeeds, and one schedule of a whole shutdown.\<close>

definition env_ok :: startup_env where
  "env_ok = \<lparr>chip_open_ok = True, led_line_ok = True, button_line_ok = True,
      request_output_ok = True, request_input_ok = True, mutex_init_ok = True,
      thread_create_ok = True\<rparr>"

definition sch0 :: "action list" where
  "sch0 = [Thread_step, Thread_step, Thread_step, Main_step,
           Thread_step, Thread_step, Thread_step, Thread_step, Main_step, Main_step]"

subsection \<open>The floating-point computation of the sine-wave animation\<close>

text \<open>
  \<open>sine_wave_animation\<close> keeps its phase in a C \<open>float\<close> and computes in \<open>double\<close>.
  Both formats are modelled by rounding a real number to the nearest number with 24
  or 53 significant bits, ties going to the even one (the default rounding of IEEE
  754).  The exponent is not bounded: the values of this computation are at most 128
  in size and, when not 0, far above the subnormal range.
\<close>

definition rne :: "real \<Rightarrow> int" where
  "rne y =
     (let f = \<lfloor>y\<rfloor>; r = y - of_int f
      in if r < 1 / 2 then f else if 1 / 2 < r then f + 1 else if even f then f else f + 1)"

definition round_bits :: "nat \<Rightarrow> real \<Rightarrow> real" where
  "round_bits p x =
     (if x = 0 then 0
      else (let q = 2 powr of_int (\<lfloor>log 2 \<bar>x\<bar>\<rfloor> - (int p - 1))
            in of_int (rne (x / q)) * q))"

definition round_double :: "real \<Rightarrow> real" where
  "round_double = round_bits 53"



definition c_sin :: "real \<Rightarrow> real" where
  "c_sin x = round_double (sin x)"

text \<open>The conversion \<open>(int)\<close> drops the fraction, towards zero.\<close>

definition c_trunc :: "real \<Rightarrow> int" where
  "c_trunc v = (if 0 \<le> v then \<lfloor>v\<rfloor> else \<lceil>v\<rceil>)"

text \<open>
  \<open>(int)(50 * (1 + sin(phase)))\<close>: the sum and the product are \<open>double\<close> operations,
  each rounded; \<open>brightness_of_sine\<close> is what follows the call of \<open>sin\<close>.
\<close>

definition brightness_of_sine :: "real \<Rightarrow> int" where
  "brightness_of_sine s = c_trunc (round_double (50 * round_double (1 + s)))"

definition sine_brightness :: "real \<Rightarrow> int" where
  "sine_brightness phase = brightness_of_sine (c_sin phase)"






section \<open>Properties\<close>

subsection \<open>Arithmetic of the cycle times\<close>

lemma PWM_PERIOD_NS_value: "PWM_PERIOD_NS = 1000000"
  by (simp add: PWM_PERIOD_NS_def PWM_FREQUENCY_def signed_divide_int_def)

lemma sdiv_nonneg: "0 \<le> a \<Longrightarrow> 0 < b \<Longrightarrow> a sdiv b = a div (b::int)"
  by (cases "a = 0") (simp_all add: signed_divide_int_def)

lemma sdiv_100_bounds:
  "0 \<le> (x::int) \<Longrightarrow> 100 * (x sdiv 100) \<le> x \<and> x < 100 * (x sdiv 100 + 1)"
  by (simp add: sdiv_nonneg) presburger

lemma on_time_ns_value: "0 \<le> d \<Longrightarrow> on_time_ns d = 10000 * d"
  by (simp add: on_time_ns_def PWM_PERIOD_NS_value sdiv_nonneg)

lemma off_time_ns_value: "0 \<le> d \<Longrightarrow> off_time_ns d = 1000000 - 10000 * d"
  by (simp add: off_time_ns_def on_time_ns_value PWM_PERIOD_NS_value)

text \<open>
  For a duty cycle in range, the \<open>int\<close> product \<open>PWM_PERIOD_NS * duty\<close> and both times
  fit in 32 bits, so the unbounded integers of the model lose nothing.
\<close>

lemma on_time_no_overflow:
  "0 \<le> d \<Longrightarrow> d \<le> 100 \<Longrightarrow>
     0 \<le> PWM_PERIOD_NS * d \<and> PWM_PERIOD_NS * d < 2 ^ 31
     \<and> 0 \<le> on_time_ns d \<and> on_time_ns d < 2 ^ 31
     \<and> 0 \<le> off_time_ns d \<and> off_time_ns d < 2 ^ 31"
  by (simp add: on_time_ns_value off_time_ns_value PWM_PERIOD_NS_value)

subsection \<open>The duty-cycle invariant\<close>

lemma set_duty_cycle_eq:
  "set_duty_cycle pwm v =
     pwm\<lparr>duty_cycle := min 100 (max 0 v), stores := stores pwm @ [min 100 (max 0 v)]\<rparr>"
  by (simp add: set_duty_cycle_def Let_def min_def max_def)

lemma set_duty_cycle_ok: "duty_ok (set_duty_cycle pwm v)"
  by (simp add: set_duty_cycle_def Let_def duty_ok_def)

lemma breathing_ok: "duty_ok (fst (breathing_animation (pwm, st)))"
  by (simp add: breathing_animation_def Let_def set_duty_cycle_ok)

lemma strobe_ok: "duty_ok pwm \<Longrightarrow> duty_ok (fst (strobe_animation (pwm, st)))"
  by (simp add: strobe_animation_def Let_def set_duty_cycle_ok)

lemma run_animation_ok: "duty_ok (drv_pwm d) \<Longrightarrow> duty_ok (drv_pwm (run_animation m sb d))"
  by (cases m)
     (simp_all add: Let_def set_duty_cycle_ok breathing_ok strobe_ok sine_wave_animation_def)

lemma drive_ok: "duty_ok (drv_pwm d) \<Longrightarrow> duty_ok (drv_pwm (drive ticks d))"
  by (induction ticks arbitrary: d) (auto simp: run_animation_ok)

lemma pwm_init_duty: "duty_cycle (fst (snd (pwm_init gl env))) = 0"
  by (simp add: pwm_init_def Let_def)

lemma pwm_init_ok: "duty_ok (fst (snd (pwm_init gl env)))"
  by (simp add: duty_ok_def pwm_init_duty)

lemma driver_init_ok: "duty_ok (drv_pwm (driver_init env))"
  by (simp add: driver_init_def duty_ok_def pwm_init_duty)

text \<open>
  C1.  \<open>set_duty_cycle\<close> stores exactly \<open>min 100 (max 0 v)\<close>, for every \<open>v\<close>: it has no
  error result, and the store always takes place (\<open>-5\<close> gives 0, \<open>150\<close> gives 100).
  \<open>pwm_init\<close> leaves the duty cycle at 0 whether or not it succeeds.  So
  \<open>0 \<le> duty_cycle \<le> 100\<close> holds after \<open>pwm_init\<close>, after any \<open>set_duty_cycle\<close>, and
  after any sequence of animation ticks of the main loop, in any order of modes and
  for any integers the sine computation may give.
\<close>

theorem set_duty_cycle_clamps:
  "set_duty_cycle pwm v =
     pwm\<lparr>duty_cycle := min 100 (max 0 v), stores := stores pwm @ [min 100 (max 0 v)]\<rparr>
   \<and> duty_cycle (set_duty_cycle pwm v) = min 100 (max 0 v)
   \<and> duty_cycle (set_duty_cycle pwm (- 5)) = 0
   \<and> duty_cycle (set_duty_cycle pwm 150) = 100
   \<and> duty_cycle (fst (snd (pwm_init gl env))) = 0
   \<and> duty_ok (fst (snd (pwm_init gl env)))
   \<and> duty_ok (set_duty_cycle pwm v)
   \<and> duty_ok (drv_pwm (drive ticks (driver_init env)))"
proof -
  have eq: "set_duty_cycle pwm v =
      pwm\<lparr>duty_cycle := min 100 (max 0 v), stores := stores pwm @ [min 100 (max 0 v)]\<rparr>"
    by (rule set_duty_cycle_eq)
  have val: "duty_cycle (set_duty_cycle pwm x) = min 100 (max 0 x)" for x
    by (simp add: set_duty_cycle_eq)
  have reach: "duty_ok (drv_pwm (drive ticks (driver_init env)))"
    by (rule drive_ok [OF driver_init_ok])
  show ?thesis
    using eq val [of v] val [of "- 5"] val [of 150] reach
      set_duty_cycle_ok [of pwm v] pwm_init_duty [of gl env] pwm_init_ok [of gl env]
    by simp
qed

subsection \<open>Cycle times\<close>

text \<open>
  C2.  For a duty cycle \<open>d\<close> in [0,100] the two times of a cycle add up to the period
  exactly, and \<open>on_time_ns d\<close> is the exact quotient \<open>PWM_PERIOD_NS * d / 100\<close> rounded
  down: it is at most the exact value and less than one nanosecond below it.
\<close>

theorem on_off_sum_period:
  "0 \<le> d \<Longrightarrow> d \<le> 100 \<Longrightarrow>
     on_time_ns d + off_time_ns d = PWM_PERIOD_NS
     \<and> 100 * on_time_ns d \<le> PWM_PERIOD_NS * d
     \<and> PWM_PERIOD_NS * d < 100 * (on_time_ns d + 1)"
  by (simp add: on_time_ns_value off_time_ns_value PWM_PERIOD_NS_value)

theorem on_off_sum_period_witness:
  "(0::int) \<le> 25 \<and> (25::int) \<le> 100
   \<and> on_time_ns 25 = 250000 \<and> off_time_ns 25 = 750000
   \<and> on_time_ns 25 + off_time_ns 25 = PWM_PERIOD_NS"
  using on_off_sum_period [of 25]
  by (simp add: on_time_ns_value off_time_ns_value)

subsection \<open>The phases of one cycle\<close>

lemma calls_set_value: "calls (snd (gpiod_line_set_value v w)) = calls w @ [Set_value v]"
  by (simp add: gpiod_line_set_value_def split: list.splits)

lemma calls_nano_sleep: "calls (nano_sleep n w) = calls w @ [Nano_sleep n]"
  by (simp add: nano_sleep_def)

lemma calls_pwm_cycle:
  "calls (pwm_cycle d w) = calls w
     @ (if 0 < d then [Set_value 1, Nano_sleep (on_time_ns d)] else [])
     @ (if d < 100 then [Set_value 0, Nano_sleep (off_time_ns d)] else [])"
  by (simp add: pwm_cycle_def Let_def calls_set_value calls_nano_sleep)

text \<open>
  C3.  For a duty cycle \<open>d\<close> in [0,100], the calls one cycle adds are: the write of 1
  and a sleep of \<open>on_time_ns d\<close> exactly when \<open>on_time_ns d\<close> is positive, then the write
  of 0 and a sleep of \<open>off_time_ns d\<close> exactly when \<open>off_time_ns d\<close> is positive; every
  sleep asked for is positive.  With \<open>d = 0\<close> the cycle is one write of 0 and a sleep of
  the whole period, with \<open>d = 100\<close> one write of 1 and a sleep of the whole period.
\<close>

theorem pwm_cycle_phases:
  "0 \<le> d \<Longrightarrow> d \<le> 100 \<Longrightarrow>
     calls (pwm_cycle d w) = calls w
       @ (if 0 < on_time_ns d then [Set_value 1, Nano_sleep (on_time_ns d)] else [])
       @ (if 0 < off_time_ns d then [Set_value 0, Nano_sleep (off_time_ns d)] else [])
     \<and> list_all sleep_positive (drop (length (calls w)) (calls (pwm_cycle d w)))
     \<and> calls (pwm_cycle 0 w) = calls w @ [Set_value 0, Nano_sleep PWM_PERIOD_NS]
     \<and> calls (pwm_cycle 100 w) = calls w @ [Set_value 1, Nano_sleep PWM_PERIOD_NS]"
  by (simp add: calls_pwm_cycle on_time_ns_value off_time_ns_value PWM_PERIOD_NS_value)

theorem pwm_cycle_phases_witness:
  "(0::int) \<le> 25 \<and> (25::int) \<le> 100
   \<and> calls (pwm_cycle 25 \<lparr>level = 0, faults = [], calls = []\<rparr>)
       = [Set_value 1, Nano_sleep 250000, Set_value 0, Nano_sleep 750000]"
  using pwm_cycle_phases [of 25 "\<lparr>level = 0, faults = [], calls = []\<rparr>"]
  by (simp add: on_time_ns_value off_time_ns_value)

subsection \<open>Startup failures and the exit status\<close>

lemmas trace_defs = main_def pwm_init_def pwm_cleanup_def banner_def cleanup_chip_def
  release_led_def release_button_def Let_def

lemma main_success:
  "all_ok env \<Longrightarrow>
     Control_loop \<in> set (fst (main env)) \<and> Thread_started \<in> set (fst (main env))"
  by (auto simp: all_ok_def trace_defs)

text \<open>
  C8.  When some acquisition of the startup fails, \<open>main\<close> prints the diagnostic of
  the first one that fails, never reaches its control loop, and no generation thread
  is started; a failing \<open>pwm_init\<close> has started no thread.
\<close>

theorem startup_failure_fatal:
  "\<not> all_ok env \<Longrightarrow>
     (\<exists>a. first_failure env = Some a \<and> diagnostic a \<in> set (fst (main env)))
     \<and> Control_loop \<notin> set (fst (main env))
     \<and> Thread_started \<notin> set (fst (main env))
     \<and> (fst (pwm_init gl env) < 0 \<longrightarrow> Thread_started \<notin> set (snd (snd (pwm_init gl env))))"
  by (auto simp: all_ok_def first_failure_def trace_defs)

theorem startup_failure_fatal_witness:
  "\<not> all_ok \<lparr>chip_open_ok = True, led_line_ok = True, button_line_ok = True,
       request_output_ok = True, request_input_ok = True, mutex_init_ok = True,
       thread_create_ok = False\<rparr>
   \<and> fst (pwm_init LED_PIN \<lparr>chip_open_ok = True, led_line_ok = True, button_line_ok = True,
       request_output_ok = True, request_input_ok = True, mutex_init_ok = True,
       thread_create_ok = False\<rparr>) < 0
   \<and> Perror ''Thread creation failed'' \<in> set (fst (main \<lparr>chip_open_ok = True,
       led_line_ok = True, button_line_ok = True, request_output_ok = True,
       request_input_ok = True, mutex_init_ok = True, thread_create_ok = False\<rparr>))
   \<and> Control_loop \<notin> set (fst (main \<lparr>chip_open_ok = True,
       led_line_ok = True, button_line_ok = True, request_output_ok = True,
       request_input_ok = True, mutex_init_ok = True, thread_create_ok = False\<rparr>))"
  using startup_failure_fatal [of "\<lparr>chip_open_ok = True, led_line_ok = True,
       button_line_ok = True, request_output_ok = True, request_input_ok = True,
       mutex_init_ok = True, thread_create_ok = False\<rparr>" LED_PIN]
  by (simp add: all_ok_def first_failure_def pwm_init_def)

text \<open>
  C10.  The exit status of \<open>main\<close> is 1 when the chip cannot be opened and 0 in every
  other case: each later failure leaves through the cleanup labels and returns 0, as
  a normal shutdown does.
\<close>

theorem exit_status_only_chip:
  "snd (main env) = (if chip_open_ok env then 0 else 1)"
  by (simp add: main_def split: prod.splits)

subsection \<open>The breathing animation\<close>

lemma triangle_less: "k < 100 \<Longrightarrow> triangle k = (if k \<le> 50 then 2 * int k else 200 - 2 * int k)"
  by (simp add: triangle_def)

lemma triangle_bounds: "0 \<le> triangle n \<and> triangle n \<le> 100"
  by (simp add: triangle_def Let_def)

lemma triangle_mod: "triangle n = triangle (n mod 100)"
  by (simp add: triangle_def)

lemma leg_mod: "leg n = leg (n mod 100)"
  by (simp add: leg_def)

lemma breathing_step_less:
  assumes "k < 100"
  shows "breathing_animation (p, \<lparr>brightness = triangle k, direction = leg k\<rparr>) =
     (set_duty_cycle p (triangle (Suc k mod 100)),
      \<lparr>brightness = triangle (Suc k mod 100), direction = leg (Suc k mod 100)\<rparr>)"
proof -
  consider "k < 49" | "k = 49" | "k = 50" | "50 < k \<and> k < 99" | "k = 99"
    using assms by linarith
  then show ?thesis
  proof cases
    case 1
    then show ?thesis
      by (simp add: breathing_animation_def Let_def triangle_less leg_def add.commute)
  next
    case 2
    then show ?thesis
      by (simp add: breathing_animation_def Let_def triangle_less leg_def add.commute)
  next
    case 3
    then show ?thesis
      by (simp add: breathing_animation_def Let_def triangle_less leg_def)
  next
    case 4
    then have "Suc k mod 100 = Suc k" by simp
    with 4 show ?thesis
      by (simp add: breathing_animation_def Let_def triangle_less leg_def add.commute)
  next
    case 5
    then show ?thesis
      by (simp add: breathing_animation_def Let_def triangle_less leg_def add.commute)
  qed
qed

lemma breathing_step:
  "breathing_animation (p, \<lparr>brightness = triangle n, direction = leg n\<rparr>) =
     (set_duty_cycle p (triangle (Suc n)),
      \<lparr>brightness = triangle (Suc n), direction = leg (Suc n)\<rparr>)"
proof -
  have "n mod 100 < 100" by simp
  from breathing_step_less [OF this, of p]
  have "breathing_animation (p, \<lparr>brightness = triangle (n mod 100), direction = leg (n mod 100)\<rparr>) =
     (set_duty_cycle p (triangle (Suc (n mod 100) mod 100)),
      \<lparr>brightness = triangle (Suc (n mod 100) mod 100), direction = leg (Suc (n mod 100) mod 100)\<rparr>)" .
  moreover have "Suc (n mod 100) mod 100 = Suc n mod 100" by (simp add: mod_Suc_eq)
  ultimately show ?thesis
    using triangle_mod [of n] leg_mod [of n] triangle_mod [of "Suc n"] leg_mod [of "Suc n"]
    by simp
qed


lemma breathing_closed:
  "breathing_after n pwm =
     (pwm\<lparr>duty_cycle := (if n = 0 then duty_cycle pwm else triangle n),
          stores := stores pwm @ map triangle [1..<Suc n]\<rparr>,
      \<lparr>brightness = triangle n, direction = leg n\<rparr>)"
proof (induction n)
  case 0
  show ?case by (simp add: breathing_after_def breathing_init_def triangle_def leg_def)
next
  case (Suc n)
  have "breathing_after (Suc n) pwm = breathing_animation (breathing_after n pwm)"
    by (simp add: breathing_after_def)
  then show ?case
    by (simp add: Suc.IH breathing_step set_duty_cycle_eq triangle_bounds)
qed

lemma first_period: "map triangle [1..<101] = map (\<lambda>i. 2 * int i) [1..<51] @ map (\<lambda>i. 100 - 2 * int i) [1..<51]"
  by code_simp


text \<open>
  C5.  From \<open>brightness = 0\<close>, \<open>direction = 1\<close>, the values that successive calls of
  \<open>breathing_animation\<close> store are the triangle wave: the first 100 calls store
  2, 4, ..., 100 and then 98, 96, ..., 0, after which the statics are back at their
  initial values, so every further 100 calls repeat the same values.  Each call moves
  the brightness by exactly 2 in the current direction (so strictly up on a rising
  leg, strictly down on a falling one), the stored duty cycle is the brightness, and
  the direction changes at a call exactly when that call stores 0 or 100.
\<close>

theorem breathing_sequence:
  "stores (fst (breathing_after n pwm)) = stores pwm @ map triangle [1..<Suc n]
   \<and> stores (fst (breathing_after 100 pwm)) =
       stores pwm @ map (\<lambda>i. 2 * int i) [1..<51] @ map (\<lambda>i. 100 - 2 * int i) [1..<51]
   \<and> snd (breathing_after (n + 100) pwm) = snd (breathing_after n pwm)
   \<and> duty_cycle (fst (breathing_after (Suc n + 100) pwm)) = duty_cycle (fst (breathing_after (Suc n) pwm))
   \<and> duty_cycle (fst (breathing_after (Suc n) pwm)) = brightness (snd (breathing_after (Suc n) pwm))
   \<and> (direction (snd (breathing_after n pwm)) = 1 \<or> direction (snd (breathing_after n pwm)) = - 1)
   \<and> brightness (snd (breathing_after (Suc n) pwm)) - brightness (snd (breathing_after n pwm))
       = 2 * direction (snd (breathing_after n pwm))
   \<and> ((direction (snd (breathing_after (Suc n) pwm)) \<noteq> direction (snd (breathing_after n pwm)))
       = (duty_cycle (fst (breathing_after (Suc n) pwm)) = 0
          \<or> duty_cycle (fst (breathing_after (Suc n) pwm)) = 100))"
proof -
  have k: "n mod 100 < 100" by simp
  have tri_per: "triangle (m + 100) = triangle m" for m
    by (simp add: triangle_def)
  have leg_per: "leg (m + 100) = leg m" for m
    by (simp add: leg_def)
  have diff: "triangle (Suc n) - triangle n = 2 * leg n"
    using k unfolding triangle_def leg_def Let_def mod_Suc by (simp split: if_splits)
  have flip: "(leg (Suc n) \<noteq> leg n) = (triangle (Suc n) = 0 \<or> triangle (Suc n) = 100)"
    using k unfolding triangle_def leg_def Let_def mod_Suc by (simp split: if_splits)
  have legs: "leg n = 1 \<or> leg n = - 1" by (simp add: leg_def)
  have c1: "stores (fst (breathing_after n pwm)) = stores pwm @ map triangle [1..<Suc n]"
    by (simp add: breathing_closed del: upt_Suc)
  have c2: "stores (fst (breathing_after 100 pwm)) =
       stores pwm @ map (\<lambda>i. 2 * int i) [1..<51] @ map (\<lambda>i. 100 - 2 * int i) [1..<51]"
    using first_period by (simp add: breathing_closed del: upt_Suc)
  have c3: "snd (breathing_after (n + 100) pwm) = snd (breathing_after n pwm)"
    by (simp add: breathing_closed tri_per leg_per del: upt_Suc)
  have dS: "duty_cycle (fst (breathing_after (Suc m) pwm)) = triangle (Suc m)" for m
    by (simp add: breathing_closed del: upt_Suc)
  have c4: "duty_cycle (fst (breathing_after (Suc n + 100) pwm))
      = duty_cycle (fst (breathing_after (Suc n) pwm))"
    using dS [of "n + 100"] dS [of n] tri_per [of "Suc n"] by simp
  have st: "snd (breathing_after m pwm) = \<lparr>brightness = triangle m, direction = leg m\<rparr>" for m
    by (simp add: breathing_closed del: upt_Suc)
  show ?thesis
    using c1 c2 c3 c4 dS [of n] diff flip legs
    by (simp add: st del: upt_Suc)
qed

subsection \<open>The strobe animation\<close>

lemma strobe_step:
  "r < 5 \<Longrightarrow>
   strobe_animation (p, \<lparr>state = strobe_flag q, counter = int r\<rparr>) =
     (if r = 4
      then (set_duty_cycle p (strobe_level (Suc q)), \<lparr>state = strobe_flag (Suc q), counter = 0\<rparr>)
      else (p, \<lparr>state = strobe_flag q, counter = int (Suc r)\<rparr>))"
  by (simp add: strobe_animation_def Let_def strobe_flag_def strobe_level_def add.commute)

lemma strobe_closed:
  "strobe_after n pwm =
     (pwm\<lparr>duty_cycle := (if n < 5 then duty_cycle pwm else strobe_level (n div 5)),
          stores := stores pwm @ map strobe_level [1..<Suc (n div 5)]\<rparr>,
      \<lparr>state = strobe_flag (n div 5), counter = int (n mod 5)\<rparr>)"
proof (induction n)
  case 0
  show ?case by (simp add: strobe_after_def strobe_init_def strobe_flag_def)
next
  case (Suc n)
  have unf: "strobe_after (Suc n) pwm = strobe_animation (strobe_after n pwm)"
    by (simp add: strobe_after_def)
  have r: "n mod 5 < 5" by simp
  show ?case
  proof (cases "n mod 5 = 4")
    case True
    then have d: "Suc n div 5 = Suc (n div 5)" "Suc n mod 5 = 0" "\<not> Suc n < 5"
      by (simp_all add: div_Suc mod_Suc) 
    have lv: "0 \<le> strobe_level k \<and> strobe_level k \<le> 100" for k
      by (simp add: strobe_level_def)
    show ?thesis
      unfolding unf Suc.IH strobe_step [OF r] d
      using True by (simp add: set_duty_cycle_eq lv)
  next
    case False
    then have d: "Suc n div 5 = n div 5" "Suc n mod 5 = Suc (n mod 5)"
      by (simp_all add: div_Suc mod_Suc)
    have lt: "(Suc n < 5) = (n < 5)"
      using False by presburger
    show ?thesis
      unfolding unf Suc.IH strobe_step [OF r] d lt
      using False by simp
  qed
qed

text \<open>
  C6 (as amended).  From \<open>counter = 0\<close>, \<open>state = 0\<close>, after \<open>n\<close> calls of
  \<open>strobe_animation\<close> the counter is \<open>n mod 5\<close>, the state has flipped \<open>n div 5\<close>
  times, and \<open>set_duty_cycle\<close> has been called \<open>n div 5\<close> times, once at every fifth
  call, storing 100 and 0 in turn.  The first four calls store nothing: the duty cycle
  keeps the value it had before the first call.
\<close>

theorem strobe_sequence:
  "strobe_after n pwm =
     (pwm\<lparr>duty_cycle := (if n < 5 then duty_cycle pwm else if odd (n div 5) then 100 else 0),
          stores := stores pwm @ map (\<lambda>k. if odd k then 100 else 0) [1..<Suc (n div 5)]\<rparr>,
      \<lparr>state = (if odd (n div 5) then 1 else 0), counter = int (n mod 5)\<rparr>)
   \<and> length (stores (fst (strobe_after n pwm))) = length (stores pwm) + n div 5"
  by (simp add: strobe_closed strobe_level_def [abs_def] strobe_flag_def del: upt_Suc)

text \<open>
  C6 as stated fails: the main loop starts in manual mode, which stores 50; a first
  call of \<open>strobe_animation\<close> after that (its statics still 0) leaves the duty cycle
  at 50, not at 0.
\<close>

theorem strobe_keeps_previous_duty:
  "duty_cycle (drv_pwm (drive [(MODE_MANUAL, 0), (MODE_STROBE, 0)]
      (driver_init \<lparr>chip_open_ok = True, led_line_ok = True, button_line_ok = True,
         request_output_ok = True, request_input_ok = True, mutex_init_ok = True,
         thread_create_ok = True\<rparr>))) = 50
   \<and> drv_strobe (drive [(MODE_MANUAL, 0)]
      (driver_init \<lparr>chip_open_ok = True, led_line_ok = True, button_line_ok = True,
         request_output_ok = True, request_input_ok = True, mutex_init_ok = True,
         thread_create_ok = True\<rparr>)) = \<lparr>state = 0, counter = 0\<rparr>
   \<and> duty_cycle (fst (strobe_animation
        (\<lparr>line = 17, duty_cycle = 50, active = True, stores = [50]\<rparr>, \<lparr>state = 0, counter = 0\<rparr>))) = 50"
  by (simp add: driver_init_def pwm_init_def strobe_init_def breathing_init_def
      strobe_animation_def set_duty_cycle_def manual_brightness_def Let_def)

subsection \<open>Shutdown: the thread and \<open>pwm_cleanup\<close>\<close>

lemma since_snoc: "since m (xs @ [e]) = (if m \<in> set xs then since m xs @ [e] else [])"
  by (induction xs) auto

lemma total_sleep_append: "total_sleep (xs @ ys) = total_sleep xs + total_sleep ys"
  by (induction xs rule: total_sleep.induct) auto

lemma calls_emit: "calls (emit e w) = calls w @ [e]"
  by (simp add: emit_def)

lemmas calls_simps = calls_emit calls_set_value calls_nano_sleep

lemma run_append: "run (xs @ ys) s = run ys (run xs s)"
  by (induction xs arbitrary: s) auto

lemma run_invariant:
  assumes "P s" and "\<And>a t. P t \<Longrightarrow> P (step a t)"
  shows "P (run sch s)"
  using assms(1)
proof (induction sch arbitrary: s)
  case Nil
  then show ?case by simp
next
  case (Cons a sch)
  then show ?case using assms(2) by simp
qed

lemma inv_duty_step: "inv_duty s \<Longrightarrow> inv_duty (step a s)"
proof (cases a)
  case Thread_step
  assume "inv_duty s"
  then show ?thesis
    unfolding Thread_step
    by (cases "tpc s") (auto simp: inv_duty_def thread_step_def duty_ok_def)
next
  case (Main_set v)
  assume "inv_duty s"
  then show ?thesis
    unfolding Main_set
    by (auto simp: inv_duty_def main_set_def set_duty_cycle_ok)
next
  case Main_step
  assume "inv_duty s"
  then show ?thesis
    unfolding Main_step
    by (cases "mpc s") (auto simp: inv_duty_def main_step_def duty_ok_def)
qed

lemma inv_ctl_step: "inv_ctl s \<Longrightarrow> inv_ctl (step a s)"
proof (cases a)
  case Thread_step
  assume "inv_ctl s"
  then show ?thesis
    unfolding Thread_step
    by (cases "tpc s") (auto simp: inv_ctl_def thread_step_def calls_simps joined_def)
next
  case (Main_set v)
  assume "inv_ctl s"
  then show ?thesis
    unfolding Main_set
    by (auto simp: inv_ctl_def main_set_def set_duty_cycle_eq)
next
  case Main_step
  assume "inv_ctl s"
  then show ?thesis
    unfolding Main_step
    by (cases "mpc s") (auto simp: inv_ctl_def main_step_def calls_simps joined_def)
qed

lemma total_sleep_snoc:
  "total_sleep (xs @ [e]) = total_sleep xs + (case e of Nano_sleep n \<Rightarrow> n | _ \<Rightarrow> 0)"
  by (cases e) (simp_all add: total_sleep_append)

lemma remaining_le: "pc_duty_ok pc \<Longrightarrow> remaining pc \<le> PWM_PERIOD_NS"
  by (cases pc) (simp_all add: off_time_ns_value PWM_PERIOD_NS_value)

lemma inv_sleep_step:
  assumes "inv_duty s" "inv_ctl s" "inv_sleep s"
  shows "inv_sleep (step a s)"
proof (cases a)
  case Thread_step
  show ?thesis
    unfolding Thread_step
    using assms
    by (cases "tpc s")
       (auto simp: inv_sleep_def inv_duty_def inv_ctl_def thread_step_def calls_simps
          since_snoc total_sleep_snoc on_time_ns_value off_time_ns_value PWM_PERIOD_NS_value)
next
  case (Main_set v)
  show ?thesis
    unfolding Main_set using assms by (auto simp: inv_sleep_def main_set_def)
next
  case Main_step
  have le: "remaining (tpc s) \<le> PWM_PERIOD_NS"
    using assms(1) by (simp add: inv_duty_def remaining_le)
  show ?thesis
    unfolding Main_step
    using assms le
    by (cases "mpc s")
       (auto simp: inv_sleep_def inv_ctl_def main_step_def calls_simps
          since_snoc total_sleep_snoc)
qed

lemma inv_last_step: "inv_last s \<Longrightarrow> inv_last (step a s)"
proof (cases a)
  case Thread_step
  assume "inv_last s"
  then show ?thesis
    unfolding Thread_step
    by (cases "tpc s") (auto simp: inv_last_def thread_step_def calls_simps)
next
  case (Main_set v)
  assume "inv_last s"
  then show ?thesis
    unfolding Main_set by (auto simp: inv_last_def main_set_def)
next
  case Main_step
  assume "inv_last s"
  then show ?thesis
    unfolding Main_step
    by (cases "mpc s") (auto simp: inv_last_def main_step_def calls_simps)
qed

lemma inv_quiet_step:
  assumes "inv_ctl s" "inv_quiet s"
  shows "inv_quiet (step a s)"
proof (cases a)
  case Thread_step
  show ?thesis
    unfolding Thread_step
    using assms
    by (cases "tpc s")
       (auto simp: inv_quiet_def inv_ctl_def thread_step_def calls_simps since_snoc joined_def)
next
  case (Main_set v)
  show ?thesis
    unfolding Main_set using assms by (auto simp: inv_quiet_def main_set_def)
next
  case Main_step
  show ?thesis
    unfolding Main_step
    using assms
    by (cases "mpc s")
       (auto simp: inv_quiet_def inv_ctl_def main_step_def calls_simps since_snoc)
qed

lemma inv_all_init: "inv_all (system_init env fs)"
  by (simp add: inv_all_def inv_duty_def inv_ctl_def inv_sleep_def inv_last_def inv_quiet_def
      system_init_def pwm_init_def Let_def duty_ok_def joined_def)

lemma inv_all_step: "inv_all s \<Longrightarrow> inv_all (step a s)"
  by (simp add: inv_all_def inv_duty_step inv_ctl_step inv_sleep_step inv_last_step
      inv_quiet_step)

lemma inv_all_run: "inv_all (run sch (system_init env fs))"
  by (rule run_invariant [OF inv_all_init inv_all_step])

lemma thread_step_pwm: "sys_pwm (thread_step s) = sys_pwm s"
  by (cases "tpc s") (simp_all add: thread_step_def)

lemma thread_step_progress:
  "\<not> active (sys_pwm s) \<Longrightarrow> steps_left (tpc (thread_step s)) \<le> steps_left (tpc s) - 1"
  by (cases "tpc s") (simp_all add: thread_step_def)

lemma thread_steps_progress:
  "\<not> active (sys_pwm s) \<Longrightarrow>
     \<not> active (sys_pwm ((thread_step ^^ n) s))
     \<and> steps_left (tpc ((thread_step ^^ n) s)) \<le> steps_left (tpc s) - n"
proof (induction n)
  case 0
  then show ?case by simp
next
  case (Suc n)
  then have ih: "\<not> active (sys_pwm ((thread_step ^^ n) s))"
    "steps_left (tpc ((thread_step ^^ n) s)) \<le> steps_left (tpc s) - n"
    by simp_all
  from thread_step_progress [OF ih(1)] ih
  show ?case by (simp add: thread_step_pwm)
qed

lemma steps_left_le: "steps_left pc \<le> 7"
  by (cases pc) simp_all

lemma thread_returns:
  assumes "\<not> active (sys_pwm s)"
  shows "tpc ((thread_step ^^ 7) s) = T_done"
proof -
  have "steps_left (tpc ((thread_step ^^ 7) s)) \<le> steps_left (tpc s) - 7"
    using thread_steps_progress [OF assms, of 7] by simp
  then have "steps_left (tpc ((thread_step ^^ 7) s)) = 0"
    using steps_left_le [of "tpc s"] by simp
  then show ?thesis
    by (cases "tpc ((thread_step ^^ 7) s)") simp_all
qed

lemma since_absent: "m \<notin> set xs \<Longrightarrow> since m xs = []"
  by (induction xs) auto

lemma remaining_nonneg: "pc_duty_ok pc \<Longrightarrow> 0 \<le> remaining pc"
  by (cases pc) (simp_all add: off_time_ns_value PWM_PERIOD_NS_value)

text \<open>
  C4.  In every interleaving of the generation thread with the main thread, started
  right after \<open>pwm_init\<close>:
  once \<open>active\<close> is false the thread returns after at most 7 of its own steps; the
  time it sleeps after \<open>active\<close> was cleared is at most one period (a sleep during which
  the flag is cleared counts in full: its event is appended when it is over);
  when the thread has returned, its last write to the line is the write of 0 made
  after the loop; \<open>pthread_join\<close> has returned, and so \<open>pwm_cleanup\<close> can return, only
  when the thread has returned; and no write to the line follows the return of
  \<open>pthread_join\<close>, so none lies between the return of \<open>pwm_cleanup\<close> and the release
  of the lines.
\<close>

theorem shutdown_joins_thread:
  "(let s = run sch (system_init env fs); evs = calls (sys_world s) in
     (\<not> active (sys_pwm s) \<longrightarrow> tpc ((thread_step ^^ 7) s) = T_done)
     \<and> total_sleep (since Active_cleared evs) \<le> PWM_PERIOD_NS
     \<and> (tpc s = T_done \<longrightarrow>
          filter is_write evs \<noteq> [] \<and> last (filter is_write evs) = Set_value 0)
     \<and> (Thread_joined \<in> set evs) = (mpc s \<noteq> M_loop \<and> mpc s \<noteq> M_join)
     \<and> (Thread_joined \<in> set evs \<longrightarrow> tpc s = T_done)
     \<and> \<not> list_ex is_write (since Thread_joined evs))"
proof -
  define s where "s = run sch (system_init env fs)"
  have inv: "inv_all s" unfolding s_def by (rule inv_all_run)
  then have d: "inv_duty s" and c: "inv_ctl s" and sl: "inv_sleep s"
    and la: "inv_last s" and q: "inv_quiet s"
    by (simp_all add: inv_all_def)
  have t1: "\<not> active (sys_pwm s) \<longrightarrow> tpc ((thread_step ^^ 7) s) = T_done"
    by (simp add: thread_returns)
  have t2: "total_sleep (since Active_cleared (calls (sys_world s))) \<le> PWM_PERIOD_NS"
  proof (cases "mpc s = M_loop")
    case True
    with c have "Active_cleared \<notin> set (calls (sys_world s))" by (simp add: inv_ctl_def)
    then have "since Active_cleared (calls (sys_world s)) = []"
      by (rule since_absent)
    then show ?thesis by (simp add: PWM_PERIOD_NS_value)
  next
    case False
    with sl have "total_sleep (since Active_cleared (calls (sys_world s))) + remaining (tpc s)
        \<le> PWM_PERIOD_NS" by (simp add: inv_sleep_def)
    moreover have "0 \<le> remaining (tpc s)"
      using d by (simp add: inv_duty_def remaining_nonneg)
    ultimately show ?thesis by linarith
  qed
  show ?thesis
    unfolding Let_def s_def [symmetric]
    using t1 t2 c la q
    by (auto simp: inv_ctl_def inv_last_def inv_quiet_def joined_def)
qed

lemma run_sch0:
  "run sch0 (system_init env_ok []) =
     \<lparr>sys_pwm = \<lparr>line = 17, duty_cycle = 0, active = False, stores = []\<rparr>,
      sys_world = \<lparr>level = 0, faults = [],
        calls = [Active_cleared, Set_value 0, Nano_sleep 1000000, Set_value 0,
                 Thread_joined, Mutex_destroy]\<rparr>,
      tpc = T_done, mpc = M_release_button\<rparr>"
  by (simp add: sch0_def system_init_def pwm_init_def env_ok_def thread_step_def main_step_def
      emit_def gpiod_line_set_value_def nano_sleep_def off_time_ns_value LED_PIN_def)

theorem shutdown_joins_thread_witness:
  "\<not> active (sys_pwm (run sch0 (system_init env_ok [])))
   \<and> tpc (run sch0 (system_init env_ok [])) = T_done
   \<and> Thread_joined \<in> set (calls (sys_world (run sch0 (system_init env_ok []))))
   \<and> tpc ((thread_step ^^ 7) (run sch0 (system_init env_ok []))) = T_done
   \<and> last (filter is_write (calls (sys_world (run sch0 (system_init env_ok []))))) = Set_value 0
   \<and> mpc (run sch0 (system_init env_ok [])) = M_release_button"
  using shutdown_joins_thread [of sch0 env_ok "[]"]
  by (simp add: run_sch0 Let_def)

text \<open>
  The steps of the thread from the high test to the next loop test do to the line
  what \<open>pwm_cycle\<close> does: the two models of the loop body agree.
\<close>

lemma thread_cycle_agrees:
  assumes "tpc s = T_high d"
  shows "\<exists>k\<le>4. (thread_step ^^ k) s = s\<lparr>sys_world := pwm_cycle d (sys_world s), tpc := T_while\<rparr>"
proof -
  consider "0 < d \<and> d < 100" | "\<not> 0 < d" | "\<not> d < 100" by linarith
  then show ?thesis
  proof cases
    case 1
    have "(thread_step ^^ 4) s = s\<lparr>sys_world := pwm_cycle d (sys_world s), tpc := T_while\<rparr>"
      using assms 1 by (simp add: eval_nat_numeral thread_step_def pwm_cycle_def)
    then show ?thesis by (intro exI [of _ 4]) simp
  next
    case 2
    then have "d < 100" by simp
    have "(thread_step ^^ 3) s = s\<lparr>sys_world := pwm_cycle d (sys_world s), tpc := T_while\<rparr>"
      using assms 2 \<open>d < 100\<close> by (simp add: eval_nat_numeral thread_step_def pwm_cycle_def)
    then show ?thesis by (intro exI [of _ 3]) simp
  next
    case 3
    then have "0 < d" by simp
    have "(thread_step ^^ 3) s = s\<lparr>sys_world := pwm_cycle d (sys_world s), tpc := T_while\<rparr>"
      using assms 3 \<open>0 < d\<close> by (simp add: eval_nat_numeral thread_step_def pwm_cycle_def)
    then show ?thesis by (intro exI [of _ 3]) simp
  qed
qed

subsection \<open>Failing line writes\<close>

lemma pwm_thread_calls_cong:
  "calls w1 = calls w2 \<Longrightarrow>
     map_option calls (pwm_thread obs w1) = map_option calls (pwm_thread obs w2)"
proof (induction obs arbitrary: w1 w2)
  case Nil
  show ?case by simp
next
  case (Cons o1 obs)
  obtain act duty where o1: "o1 = (act, duty)" by (cases o1)
  have "calls (pwm_cycle duty w1) = calls (pwm_cycle duty w2)"
    using Cons.prems by (simp add: calls_pwm_cycle)
  from Cons.IH [OF this] show ?case
    using Cons.prems by (simp add: o1 calls_set_value)
qed

lemma pwm_cycle_diagnostics:
  "filter is_diagnostic (calls (pwm_cycle d w)) = filter is_diagnostic (calls w)"
  by (simp add: calls_pwm_cycle)

lemma pwm_thread_diagnostics:
  "pwm_thread obs w = Some w' \<Longrightarrow>
     filter is_diagnostic (calls w') = filter is_diagnostic (calls w)"
proof (induction obs arbitrary: w)
  case Nil
  then show ?case by simp
next
  case (Cons o1 obs)
  obtain act duty where o1: "o1 = (act, duty)" by (cases o1)
  show ?case
  proof (cases act)
    case True
    with Cons.prems o1 have "pwm_thread obs (pwm_cycle duty w) = Some w'" by simp
    from Cons.IH [OF this] show ?thesis by (simp add: pwm_cycle_diagnostics)
  next
    case False
    with Cons.prems o1 show ?thesis by (auto simp: calls_set_value)
  qed
qed

lemma one_fault_heals:
  "pwm_cycle d2 (pwm_cycle d1 (w\<lparr>faults := [True]\<rparr>))
     = pwm_cycle d2 (pwm_cycle d1 (w\<lparr>faults := []\<rparr>))"
  by (simp add: pwm_cycle_def Let_def gpiod_line_set_value_def nano_sleep_def)

text \<open>
  C9 as stated fails: in the run below the first write of the cycle fails
  (\<open>gpiod_line_set_value\<close> returns -1), and the calls of the thread up to its return
  hold no diagnostic at all.
\<close>

theorem write_failure_not_reported:
  "fst (gpiod_line_set_value 1 \<lparr>level = 0, faults = [True], calls = []\<rparr>) = - 1
   \<and> map_option calls (pwm_thread [(True, 50), (False, 50)] \<lparr>level = 0, faults = [True], calls = []\<rparr>)
       = Some [Set_value 1, Nano_sleep 500000, Set_value 0, Nano_sleep 500000, Set_value 0]
   \<and> \<not> list_ex is_diagnostic
         [Set_value 1, Nano_sleep 500000, Set_value 0, Nano_sleep 500000, Set_value 0]"
proof -
  have "fst (gpiod_line_set_value 1 \<lparr>level = 0, faults = [True], calls = []\<rparr>) = - 1"
    by (simp add: gpiod_line_set_value_def)
  then show ?thesis
    by (simp add: calls_pwm_cycle calls_set_value on_time_ns_value off_time_ns_value)
qed

text \<open>
  C9 (as amended).  The thread drops the result of every line write.  Whichever
  writes fail, a cycle and the whole thread issue the same calls as when none fails,
  and the thread returns in the same cases; none of these calls is a diagnostic.
  After one failed write the state of the line is, one cycle later, what it would
  have been without the failure.  No step of the thread changes \<open>active\<close>, so a
  failed write cannot stop the channel.
\<close>

theorem write_failure_ignored:
  "calls (pwm_cycle d (w\<lparr>faults := fs\<rparr>)) = calls (pwm_cycle d (w\<lparr>faults := []\<rparr>))
   \<and> filter is_diagnostic (calls (pwm_cycle d w)) = filter is_diagnostic (calls w)
   \<and> map_option calls (pwm_thread obs (w\<lparr>faults := fs\<rparr>))
       = map_option calls (pwm_thread obs (w\<lparr>faults := []\<rparr>))
   \<and> map_option (\<lambda>w'. filter is_diagnostic (calls w')) (pwm_thread obs w)
       = map_option (\<lambda>w'. filter is_diagnostic (calls w)) (pwm_thread obs w)
   \<and> pwm_cycle d2 (pwm_cycle d (w\<lparr>faults := [True]\<rparr>))
       = pwm_cycle d2 (pwm_cycle d (w\<lparr>faults := []\<rparr>))
   \<and> active (sys_pwm (thread_step s)) = active (sys_pwm s)"
proof -
  have a: "map_option calls (pwm_thread obs (w\<lparr>faults := fs\<rparr>))
       = map_option calls (pwm_thread obs (w\<lparr>faults := []\<rparr>))"
    by (rule pwm_thread_calls_cong) simp
  have b: "map_option (\<lambda>w'. filter is_diagnostic (calls w')) (pwm_thread obs w)
       = map_option (\<lambda>w'. filter is_diagnostic (calls w)) (pwm_thread obs w)"
    by (cases "pwm_thread obs w") (simp_all add: pwm_thread_diagnostics)
  show ?thesis
    using a b one_fault_heals [of d2 d w]
    by (simp add: calls_pwm_cycle thread_step_pwm)
qed

subsection \<open>The sine-wave animation in floating point\<close>

text \<open>
  First the rounding function: it is odd, monotone, and leaves a number alone that
  already has few enough bits.  Then bounds on the cosine from its Taylor
  polynomial and on \<open>pi\<close> from Machin's formula, which place the sines the claim is
  about.
\<close>

lemma rne_of_int [simp]: "rne (of_int n) = n"
  by (simp add: rne_def)

lemma rne_bounds: "of_int (rne y) \<le> y + 1 / 2 \<and> y - 1 / 2 \<le> of_int (rne y)"
  unfolding rne_def Let_def by (auto; linarith)

lemma rne_mono: "x \<le> y \<Longrightarrow> rne x \<le> rne y"
proof -
  assume xy: "x \<le> y"
  have fl: "\<lfloor>x\<rfloor> \<le> \<lfloor>y\<rfloor>" using xy by (rule floor_mono)
  show ?thesis
  proof (cases "\<lfloor>x\<rfloor> = \<lfloor>y\<rfloor>")
    case True
    with xy show ?thesis
      unfolding rne_def Let_def by (auto; linarith)
  next
    case False
    with fl have "\<lfloor>x\<rfloor> + 1 \<le> \<lfloor>y\<rfloor>" by simp
    moreover have "rne x \<le> \<lfloor>x\<rfloor> + 1" unfolding rne_def Let_def by auto
    moreover have "\<lfloor>y\<rfloor> \<le> rne y" unfolding rne_def Let_def by auto
    ultimately show ?thesis by linarith
  qed
qed

lemma rne_minus: "rne (- y) = - rne y"
proof (cases "y \<in> \<int>")
  case True
  then obtain n where "y = of_int n" by (auto elim: Ints_cases)
  then have "rne (- y) = rne (of_int (- n))" by simp
  also have "\<dots> = - n" by (rule rne_of_int)
  finally show ?thesis using \<open>y = of_int n\<close> by simp
next
  case False
  then have ne: "y \<noteq> of_int \<lfloor>y\<rfloor>" by (metis Ints_of_int)
  then have fl: "\<lfloor>- y\<rfloor> = - \<lfloor>y\<rfloor> - 1"
    by (simp add: floor_minus ceiling_altdef)
  have fr: "of_int \<lfloor>y\<rfloor> \<le> y" "y < of_int \<lfloor>y\<rfloor> + 1" by linarith+
  show ?thesis
    unfolding rne_def Let_def fl
    using fr ne by (auto; linarith?)
qed

lemma log2_floor_bounds:
  assumes "0 < x"
  shows "2 powr of_int \<lfloor>log 2 x\<rfloor> \<le> x \<and> x < 2 powr of_int (\<lfloor>log 2 x\<rfloor> + 1)"
proof -
  have a: "of_int \<lfloor>log 2 x\<rfloor> \<le> log 2 x" by simp
  have b: "log 2 x < of_int (\<lfloor>log 2 x\<rfloor> + 1)" by simp
  have "2 powr of_int \<lfloor>log 2 x\<rfloor> \<le> 2 powr log 2 x"
    using a by (simp only: powr_le_cancel_iff [of 2]) 
  moreover have "2 powr log 2 x < 2 powr of_int (\<lfloor>log 2 x\<rfloor> + 1)"
    using b by (simp only: powr_less_cancel_iff [of 2])
  moreover have "2 powr log 2 x = x" using assms by simp
  ultimately show ?thesis by simp
qed

lemma log2_floor_eq:
  assumes "2 powr of_int e \<le> x" "x < 2 powr of_int (e + 1)"
  shows "\<lfloor>log 2 x\<rfloor> = e"
proof -
  have "0 < (2::real) powr of_int e" by simp
  then have pos: "0 < x" using assms(1) by linarith
  have "of_int e \<le> log 2 x"
    using assms(1) pos by (simp add: le_log_iff)
  moreover have "log 2 x < of_int e + 1"
    using assms(2) pos by (simp add: log_less_iff)
  ultimately show ?thesis by (simp add: floor_eq_iff)
qed

lemma round_bits_0 [simp]: "round_bits p 0 = 0"
  by (simp add: round_bits_def)

lemma round_bits_minus: "round_bits p (- x) = - round_bits p x"
  by (simp add: round_bits_def Let_def rne_minus)

lemma round_bits_in_binade:
  assumes "2 powr of_int e \<le> x" "x < 2 powr of_int (e + 1)"
  shows "round_bits p x = of_int (rne (x / 2 powr of_int (e - (int p - 1)))) * 2 powr of_int (e - (int p - 1))"
proof -
  have "0 < (2::real) powr of_int e" by simp
  then have pos: "0 < x" using assms(1) by linarith
  have "\<lfloor>log 2 \<bar>x\<bar>\<rfloor> = e" using log2_floor_eq [OF assms] pos by simp
  then show ?thesis using pos by (simp add: round_bits_def Let_def)
qed

lemma round_bits_pos_bounds:
  assumes "0 < x" "0 < p"
  shows "2 powr of_int \<lfloor>log 2 x\<rfloor> \<le> round_bits p x
       \<and> round_bits p x \<le> 2 powr of_int (\<lfloor>log 2 x\<rfloor> + 1)"
proof -
  define e where "e = \<lfloor>log 2 x\<rfloor>"
  define q :: real where "q = 2 powr of_int (e - (int p - 1))"
  have qpos: "0 < q" by (simp add: q_def)
  have bnd: "2 powr of_int e \<le> x" "x < 2 powr of_int (e + 1)"
    using log2_floor_bounds [OF assms(1)] by (simp_all add: e_def)
  have R: "round_bits p x = of_int (rne (x / q)) * q"
    unfolding q_def by (rule round_bits_in_binade [OF bnd])
  have lo: "2 powr of_int e / q = of_int (2 ^ (p - 1))"
  proof -
    have "2 powr of_int e / q = 2 powr (of_int e - of_int (e - (int p - 1)))"
      unfolding q_def by (simp only: powr_diff)
    also have "of_int e - of_int (e - (int p - 1)) = real (p - 1)"
      using assms(2) by simp
    also have "2 powr real (p - 1) = 2 ^ (p - 1)" by (simp add: powr_realpow)
    finally show ?thesis by simp
  qed
  have hi: "2 powr of_int (e + 1) / q = of_int (2 ^ p)"
  proof -
    have "2 powr of_int (e + 1) / q = 2 powr (of_int (e + 1) - of_int (e - (int p - 1)))"
      unfolding q_def by (simp only: powr_diff)
    also have "of_int (e + 1) - of_int (e - (int p - 1)) = real p"
      by simp
    also have "2 powr real p = 2 ^ p" by (simp add: powr_realpow)
    finally show ?thesis by simp
  qed
  have "of_int (2 ^ (p - 1)) \<le> x / q"
    using bnd(1) qpos unfolding lo [symmetric] by (simp add: divide_right_mono)
  then have "rne (of_int (2 ^ (p - 1))) \<le> rne (x / q)" by (rule rne_mono)
  then have l1: "(2 ^ (p - 1) :: int) \<le> rne (x / q)" by (simp only: rne_of_int)
  have "x / q \<le> of_int (2 ^ p)"
    using bnd(2) qpos unfolding hi [symmetric] by (simp add: divide_right_mono)
  then have "rne (x / q) \<le> rne (of_int (2 ^ p))" by (rule rne_mono)
  then have l2: "rne (x / q) \<le> (2 ^ p :: int)" by (simp only: rne_of_int)
  have "2 powr of_int e = of_int (2 ^ (p - 1)) * q"
    using lo qpos by (simp add: field_simps)
  also have "\<dots> \<le> of_int (rne (x / q)) * q"
    using l1 qpos by (simp only: mult_le_cancel_right_pos of_int_le_iff)
  finally have A: "2 powr of_int e \<le> round_bits p x" by (simp only: R)
  have "of_int (rne (x / q)) * q \<le> of_int (2 ^ p) * q"
    using l2 qpos by (simp only: mult_le_cancel_right_pos of_int_le_iff)
  also have "of_int (2 ^ p) * q = 2 powr of_int (e + 1)"
    using hi qpos by (simp add: field_simps)
  finally have B: "round_bits p x \<le> 2 powr of_int (e + 1)" by (simp only: R)
  show ?thesis using A B by (simp add: e_def)
qed

lemma round_bits_mono_pos:
  assumes "0 < x" "x \<le> y" "0 < p"
  shows "round_bits p x \<le> round_bits p y"
proof -
  have ypos: "0 < y" using assms by linarith
  define ex where "ex = \<lfloor>log 2 x\<rfloor>"
  define ey where "ey = \<lfloor>log 2 y\<rfloor>"
  have le: "ex \<le> ey"
    unfolding ex_def ey_def using assms by (intro floor_mono) simp
  show ?thesis
  proof (cases "ex = ey")
    case True
    define q :: real where "q = 2 powr of_int (ex - (int p - 1))"
    have qpos: "0 < q" by (simp add: q_def)
    have Rx: "round_bits p x = of_int (rne (x / q)) * q"
      using assms(1) by (simp add: round_bits_def Let_def q_def ex_def)
    have Ry: "round_bits p y = of_int (rne (y / q)) * q"
      using ypos True by (simp add: round_bits_def Let_def q_def ey_def)
    have "x / q \<le> y / q" using assms(2) qpos by (simp add: divide_right_mono)
    then have "rne (x / q) \<le> rne (y / q)" by (rule rne_mono)
    then show ?thesis unfolding Rx Ry using qpos
      by (simp only: mult_le_cancel_right_pos of_int_le_iff)
  next
    case False
    with le have "ex + 1 \<le> ey" by simp
    then have "(2::real) powr of_int (ex + 1) \<le> 2 powr of_int ey"
      by (simp only: powr_le_cancel_iff [of 2] of_int_le_iff)
    moreover have "round_bits p x \<le> 2 powr of_int (ex + 1)"
      using round_bits_pos_bounds [OF assms(1) assms(3)] by (simp add: ex_def)
    moreover have "2 powr of_int ey \<le> round_bits p y"
      using round_bits_pos_bounds [OF ypos assms(3)] by (simp add: ey_def)
    ultimately show ?thesis by linarith
  qed
qed

lemma round_bits_pos: "0 < x \<Longrightarrow> 0 < p \<Longrightarrow> 0 < round_bits p x"
proof -
  assume a: "0 < x" "0 < p"
  have "0 < (2::real) powr of_int \<lfloor>log 2 x\<rfloor>" by simp
  with round_bits_pos_bounds [OF a] show ?thesis by linarith
qed

lemma round_bits_mono:
  assumes "x \<le> y" "0 < p"
  shows "round_bits p x \<le> round_bits p y"
proof -
  consider "0 < x" | "x = 0" | "x < 0 \<and> 0 \<le> y" | "x < 0 \<and> y < 0" by linarith
  then show ?thesis
  proof cases
    case 1
    then show ?thesis using assms by (simp add: round_bits_mono_pos)
  next
    case 2
    show ?thesis
    proof (cases "y = 0")
      case True
      with 2 show ?thesis by simp
    next
      case False
      with 2 assms have "0 < y" by simp
      from round_bits_pos [OF this assms(2)] 2 show ?thesis by simp
    qed
  next
    case 3
    then have "0 < - x" by simp
    from round_bits_pos [OF this assms(2)] have a: "round_bits p x < 0"
      by (simp add: round_bits_minus)
    have "0 \<le> round_bits p y"
    proof (cases "y = 0")
      case True
      then show ?thesis by simp
    next
      case False
      with 3 have "0 < y" by simp
      from round_bits_pos [OF this assms(2)] show ?thesis by simp
    qed
    with a show ?thesis by linarith
  next
    case 4
    then have "0 < - y" "- y \<le> - x" using assms by simp_all
    from round_bits_mono_pos [OF this assms(2)]
    show ?thesis by (simp add: round_bits_minus)
  qed
qed

lemma round_bits_scaled:
  assumes "2 powr of_int e \<le> x" "x < 2 powr of_int (e + 1)" "int n = int p - 1 - e"
  shows "round_bits p x = of_int (rne (x * 2 ^ n)) / 2 ^ n"
proof -
  have "e - (int p - 1) = - int n" using assms(3) by simp
  then have "(2::real) powr of_int (e - (int p - 1)) = 2 powr (- real n)" by simp
  also have "\<dots> = 1 / 2 ^ n" by (simp add: powr_minus powr_realpow field_simps)
  finally have q: "(2::real) powr of_int (e - (int p - 1)) = 1 / 2 ^ n" .
  show ?thesis
    unfolding round_bits_in_binade [OF assms(1,2)] q by simp
qed

lemma cos_taylor_bound:
  "\<bar>cos x - (\<Sum>m<n. cos_coeff m * x ^ m)\<bar> \<le> \<bar>x\<bar> ^ n / fact n"
proof -
  obtain t where t: "cos x = (\<Sum>m<n. cos_coeff m * x ^ m)
      + (cos (t + 1 / 2 * real n * pi) / fact n) * x ^ n"
    using Maclaurin_cos_expansion [of x n] by blast
  have "\<bar>cos x - (\<Sum>m<n. cos_coeff m * x ^ m)\<bar>
      = \<bar>cos (t + 1 / 2 * real n * pi)\<bar> * (\<bar>x\<bar> ^ n / fact n)"
    unfolding t by (simp add: abs_mult power_abs)
  also have "\<dots> \<le> 1 * (\<bar>x\<bar> ^ n / fact n)"
    by (intro mult_right_mono) simp_all
  finally show ?thesis by simp
qed

lemma sum_less_16:
  fixes f :: "nat \<Rightarrow> real"
  shows "(\<Sum>m<16. f m) = f 0 + f 1 + f 2 + f 3 + f 4 + f 5 + f 6 + f 7 + f 8 + f 9
     + f 10 + f 11 + f 12 + f 13 + f 14 + f 15"
  by (simp add: eval_nat_numeral)

lemma cos_coeffs:
  "cos_coeff 1 = 0" "cos_coeff 2 = - 1 / 2" "cos_coeff 3 = 0" "cos_coeff 4 = 1 / 24"
  "cos_coeff 5 = 0" "cos_coeff 6 = - 1 / 720" "cos_coeff 7 = 0" "cos_coeff 8 = 1 / 40320"
  "cos_coeff 9 = 0" "cos_coeff 10 = - 1 / 3628800" "cos_coeff 11 = 0"
  "cos_coeff 12 = 1 / 479001600" "cos_coeff 13 = 0" "cos_coeff 14 = - 1 / 87178291200"
  "cos_coeff 15 = 0"
  by (simp_all add: cos_coeff_def fact_numeral)

lemma cos_poly_16:
  "(\<Sum>m<16. cos_coeff m * x ^ m) =
     1 - x\<^sup>2 / 2 + x ^ 4 / 24 - x ^ 6 / 720 + x ^ 8 / 40320 - x ^ 10 / 3628800
       + x ^ 12 / 479001600 - x ^ 14 / 87178291200"
  unfolding sum_less_16 cos_coeffs by simp

lemma fact_16: "fact 16 = (20922789888000::real)"
  by (simp add: fact_numeral)

lemma cos_bounds_16:
  fixes x :: real
  shows "1 - x\<^sup>2 / 2 + x ^ 4 / 24 - x ^ 6 / 720 + x ^ 8 / 40320 - x ^ 10 / 3628800
       + x ^ 12 / 479001600 - x ^ 14 / 87178291200 - \<bar>x\<bar> ^ 16 / 20922789888000 \<le> cos x
   \<and> cos x \<le> 1 - x\<^sup>2 / 2 + x ^ 4 / 24 - x ^ 6 / 720 + x ^ 8 / 40320 - x ^ 10 / 3628800
       + x ^ 12 / 479001600 - x ^ 14 / 87178291200 + \<bar>x\<bar> ^ 16 / 20922789888000"
  using cos_taylor_bound [of x 16] unfolding cos_poly_16 fact_16 by linarith

lemma cos_x0: "cos (13176795 / 8388608 :: real) \<le> - 5 / 2 ^ 27
    \<and> - 1 / 8 \<le> cos (13176795 / 8388608 :: real)"
proof -
  have "1 - (13176795 / 8388608 :: real)\<^sup>2 / 2 + (13176795 / 8388608) ^ 4 / 24
      - (13176795 / 8388608) ^ 6 / 720 + (13176795 / 8388608) ^ 8 / 40320
      - (13176795 / 8388608) ^ 10 / 3628800 + (13176795 / 8388608) ^ 12 / 479001600
      - (13176795 / 8388608) ^ 14 / 87178291200
      + \<bar>13176795 / 8388608\<bar> ^ 16 / 20922789888000 \<le> - 5 / 2 ^ 27"
    by (simp add: power_divide)
  moreover have "- 1 / 8 \<le> 1 - (13176795 / 8388608 :: real)\<^sup>2 / 2
      + (13176795 / 8388608) ^ 4 / 24 - (13176795 / 8388608) ^ 6 / 720
      + (13176795 / 8388608) ^ 8 / 40320 - (13176795 / 8388608) ^ 10 / 3628800
      + (13176795 / 8388608) ^ 12 / 479001600 - (13176795 / 8388608) ^ 14 / 87178291200
      - \<bar>13176795 / 8388608\<bar> ^ 16 / 20922789888000"
    by (simp add: power_divide)
  ultimately show ?thesis
    using cos_bounds_16 [of "13176795 / 8388608"] by linarith
qed

lemma rne_eqI: "\<bar>y - of_int n\<bar> < 1 / 2 \<Longrightarrow> rne y = n"
proof -
  assume a: "\<bar>y - of_int n\<bar> < 1 / 2"
  have "\<lfloor>y\<rfloor> = n \<or> \<lfloor>y\<rfloor> = n - 1" using a by (auto simp: floor_eq_iff)
  then show ?thesis
    using a unfolding rne_def Let_def by (auto; linarith)
qed

lemma round_bits_exact:
  assumes "2 powr of_int e \<le> x" "x < 2 powr of_int (e + 1)" "int n = int p - 1 - e"
    "x * 2 ^ n = of_int m"
  shows "round_bits p x = x"
proof -
  have "round_bits p x = of_int (rne (of_int m)) / 2 ^ n"
    using round_bits_scaled [OF assms(1-3)] assms(4) by simp
  also have "\<dots> = of_int m / 2 ^ n" by (simp only: rne_of_int)
  also have "\<dots> = x" using assms(4) [symmetric] by simp
  finally show ?thesis .
qed

lemma rd_fix:
  "round_double (63 / 64) = 63 / 64"
  "round_double (1 - 1 / 2 ^ 52) = 1 - 1 / 2 ^ 52"
  "round_double (507 / 256) = 507 / 256"
  "round_double (2 - 1 / 2 ^ 52) = 2 - 1 / 2 ^ 52"
  "round_double (12675 / 128) = 12675 / 128"
  "round_double 1 = 1"
  "round_double 50 = 50"
  "round_double (1 / 64) = 1 / 64"
  "round_double (25 / 32) = 25 / 32"
  "round_double 2 = 2"
  "round_double 8 = 8"
  unfolding round_double_def
  subgoal by (rule round_bits_exact [where e = "- 1" and n = 53 and m = "63 * 2 ^ 47"]) simp_all
  subgoal by (rule round_bits_exact [where e = "- 1" and n = 53 and m = "2 ^ 53 - 2"]) simp_all
  subgoal by (rule round_bits_exact [where e = 0 and n = 52 and m = "507 * 2 ^ 44"]) simp_all
  subgoal by (rule round_bits_exact [where e = 0 and n = 52 and m = "2 ^ 53 - 1"]) simp_all
  subgoal by (rule round_bits_exact [where e = 6 and n = 46 and m = "12675 * 2 ^ 39"]) simp_all
  subgoal by (rule round_bits_exact [where e = 0 and n = 52 and m = "2 ^ 52"]) simp_all
  subgoal by (rule round_bits_exact [where e = 5 and n = 47 and m = "50 * 2 ^ 47"]) simp_all
  subgoal by (rule round_bits_exact [where e = "- 6" and n = 58 and m = "2 ^ 52"])
      (simp_all add: powr_neg_numeral)
  subgoal by (rule round_bits_exact [where e = "- 1" and n = 53 and m = "25 * 2 ^ 48"]) simp_all
  subgoal by (rule round_bits_exact [where e = 1 and n = 51 and m = "2 ^ 52"]) simp_all
  subgoal by (rule round_bits_exact [where e = 3 and n = 49 and m = "2 ^ 52"]) simp_all
  done


lemma rd_near_100: "round_double (50 * (2 - 1 / 2 ^ 52)) = 100 - 1 / 2 ^ 46"
proof -
  have "round_bits 53 (50 * (2 - 1 / 2 ^ 52))
      = of_int (rne (50 * (2 - 1 / 2 ^ 52) * 2 ^ 46)) / 2 ^ 46"
    by (rule round_bits_scaled [where e = 6]) simp_all
  moreover have "rne (50 * (2 - 1 / 2 ^ 52) * 2 ^ 46) = 100 * 2 ^ 46 - 1"
    by (rule rne_eqI) simp
  ultimately show ?thesis by (simp add: round_double_def)
qed

lemma rd_mono: "x \<le> y \<Longrightarrow> round_double x \<le> round_double y"
  by (simp add: round_double_def round_bits_mono)

lemma brightness_near_top:
  assumes "251 / 256 \<le> s" "s \<le> 1 - 1 / 2 ^ 52"
  shows "brightness_of_sine s = 99"
proof -
  have "round_double (507 / 256) \<le> round_double (1 + s)"
    by (rule rd_mono) (use assms(1) in simp)
  then have t1: "507 / 256 \<le> round_double (1 + s)" by (simp only: rd_fix)
  have "round_double (1 + s) \<le> round_double (2 - 1 / 2 ^ 52)"
    by (rule rd_mono) (use assms(2) in simp)
  then have t2: "round_double (1 + s) \<le> 2 - 1 / 2 ^ 52" by (simp only: rd_fix)
  have "round_double (12675 / 128) \<le> round_double (50 * round_double (1 + s))"
    by (rule rd_mono) (use t1 in simp)
  then have v1: "12675 / 128 \<le> round_double (50 * round_double (1 + s))"
    by (simp only: rd_fix)
  have "round_double (50 * round_double (1 + s)) \<le> round_double (50 * (2 - 1 / 2 ^ 52))"
    by (rule rd_mono) (use t2 in simp)
  then have v2: "round_double (50 * round_double (1 + s)) \<le> 100 - 1 / 2 ^ 46"
    by (simp only: rd_near_100)
  have "\<lfloor>round_double (50 * round_double (1 + s))\<rfloor> = 99"
    using v1 v2 by (simp add: floor_eq_iff)
  then show ?thesis using v1 by (simp add: brightness_of_sine_def c_trunc_def)
qed

lemma sin_from_cos:
  fixes s c :: real
  assumes sc: "s\<^sup>2 + c\<^sup>2 = 1" and s0: "0 \<le> s"
    and c1: "c \<le> - 5 / 2 ^ 27" and c2: "- 1 / 8 \<le> c"
  shows "63 / 64 \<le> s \<and> s \<le> 1 - 3 / 2 ^ 52"
proof -
  have cc1: "25 / 2 ^ 54 \<le> c\<^sup>2"
  proof -
    have "(5 / 2 ^ 27)\<^sup>2 \<le> (- c)\<^sup>2"
      by (rule power_mono) (use c1 in simp_all)
    then show ?thesis by (simp add: power_divide)
  qed
  have cc2: "c\<^sup>2 \<le> 1 / 64"
  proof -
    have "(- c)\<^sup>2 \<le> (1 / 8)\<^sup>2"
      by (rule power_mono) (use c1 c2 in simp_all)
    then show ?thesis by (simp add: power_divide)
  qed
  have ss1: "s\<^sup>2 \<le> 1 - 25 / 2 ^ 54" using sc cc1 by linarith
  have ss2: "63 / 64 \<le> s\<^sup>2" using sc cc2 by linarith
  have s1: "s \<le> 1"
  proof (rule ccontr)
    assume "\<not> s \<le> 1"
    then have "1\<^sup>2 < s\<^sup>2" by (intro power_strict_mono) simp_all
    with ss1 show False by simp
  qed
  have up: "s \<le> 1 - 3 / 2 ^ 52"
  proof (rule ccontr)
    assume "\<not> s \<le> 1 - 3 / 2 ^ 52"
    then have "(1 - 3 / 2 ^ 52)\<^sup>2 < s\<^sup>2" by (intro power_strict_mono) simp_all
    moreover have "(1 - 3 / 2 ^ 52 :: real)\<^sup>2 \<ge> 1 - 25 / 2 ^ 54"
      by (simp add: power2_eq_square)
    ultimately show False using ss1 by linarith
  qed
  have "s\<^sup>2 \<le> s * 1" unfolding power2_eq_square using s0 s1 by (intro mult_left_mono)
  then have "63 / 64 \<le> s" using ss2 by linarith
  then show ?thesis using up by simp
qed

lemma sin_x0: "63 / 64 \<le> sin (13176795 / 8388608 :: real)
    \<and> sin (13176795 / 8388608 :: real) \<le> 1 - 3 / 2 ^ 52"
proof (rule sin_from_cos [where c = "cos (13176795 / 8388608 :: real)"])
  show "(sin (13176795 / 8388608 :: real))\<^sup>2 + (cos (13176795 / 8388608 :: real))\<^sup>2 = 1"
    by (rule sin_cos_squared_add)
  have "(13176795 / 8388608 :: real) \<le> 2" by simp
  also have "2 \<le> pi" by (rule pi_ge_two)
  finally show "0 \<le> sin (13176795 / 8388608 :: real)"
    by (intro sin_ge_zero) simp_all
  show "cos (13176795 / 8388608 :: real) \<le> - 5 / 2 ^ 27" using cos_x0 by simp
  show "- 1 / 8 \<le> cos (13176795 / 8388608 :: real)" using cos_x0 by simp
qed



text \<open>
  The value 99 does not hang on the sine being rounded correctly: any result within
  \<open>2 ^ -51\<close> (four units in the last place) of the exact sine gives it.
\<close>

lemma brightness_x0_any_libm:
  assumes "\<bar>s - sin (13176795 / 8388608)\<bar> \<le> 1 / 2 ^ 51"
  shows "brightness_of_sine s = 99"
proof (rule brightness_near_top)
  have lo: "63 / 64 \<le> sin (13176795 / 8388608 :: real)"
    and hi: "sin (13176795 / 8388608 :: real) \<le> 1 - 3 / 2 ^ 52"
    using sin_x0 by simp_all
  have e: "(1 / 2 ^ 51 :: real) = 2 / 2 ^ 52" "(1 / 2 ^ 51 :: real) \<le> 1 / 256" by simp_all
  show "251 / 256 \<le> s" using assms lo e(2) by linarith
  show "s \<le> 1 - 1 / 2 ^ 52" using assms hi e(1) by linarith
qed






































end
